theory Spec2Isabelle
  imports Main "HOL-Library.Word" "HOL-Library.Sublist"
begin

section \<open>Python values used by geocode.py\<close>

text \<open>
  A Python \<open>float\<close> is an IEEE-754 double; it is kept as its 64-bit pattern, so that
  no arithmetic on it is assumed. The values \<open>json.loads\<close> can return are the
  constructors of \<open>json\<close>; an object is a Python \<open>dict\<close>, kept as the list of its
  items in insertion order (keys pairwise different).
\<close>

type_synonym float64 = "64 word"

datatype json =
    JNull
  | JBool bool
  | JInt int
  | JFloat float64
  | JStr string
  | JArr "json list"
  | JObj "(string \<times> json) list"

datatype error =
    OSError
  | URLError
  | HTTPError nat
  | UnicodeDecodeError
  | JSONDecodeError
  | KeyError
  | IndexError
  | TypeError
  | ValueError
  | OverflowError

text \<open>Truth value of a Python object, as \<open>if data:\<close> tests it (both zeros of a float are false).\<close>

fun truthy :: "json \<Rightarrow> bool" where
  "truthy JNull = False"
| "truthy (JBool b) = b"
| "truthy (JInt n) = (n \<noteq> 0)"
| "truthy (JFloat x) = (take_bit 63 x \<noteq> 0)"
| "truthy (JStr s) = (s \<noteq> [])"
| "truthy (JArr xs) = (xs \<noteq> [])"
| "truthy (JObj kvs) = (kvs \<noteq> [])"

subsection \<open>Dictionaries\<close>

text \<open>
  A \<open>dict\<close> keeps insertion order: \<open>d[k] = v\<close> replaces the value of a key that is
  present where it stands, and appends a new key at the end. \<open>d[k]\<close> raises
  \<open>KeyError\<close> on a missing key.
\<close>

primrec dict_set :: "'k \<Rightarrow> 'v \<Rightarrow> ('k \<times> 'v) list \<Rightarrow> ('k \<times> 'v) list" where
  "dict_set k v [] = [(k, v)]"
| "dict_set k v (p # ps) = (if fst p = k then (k, v) # ps else p # dict_set k v ps)"

definition dict_get :: "('k \<times> 'v) list \<Rightarrow> 'k \<Rightarrow> error + 'v" where
  "dict_get d k = (case map_of d k of None \<Rightarrow> Inl KeyError | Some v \<Rightarrow> Inr v)"

text \<open>\<open>x[i]\<close> with an integer index \<open>i \<ge> 0\<close>, and \<open>x[k]\<close> with a string key.\<close>

fun getitem_index :: "json \<Rightarrow> nat \<Rightarrow> error + json" where
  "getitem_index (JArr xs) i = (if i < length xs then Inr (xs ! i) else Inl IndexError)"
| "getitem_index (JStr s) i = (if i < length s then Inr (JStr [s ! i]) else Inl IndexError)"
| "getitem_index (JObj kvs) i = Inl KeyError"
| "getitem_index _ i = Inl TypeError"

fun getitem_key :: "json \<Rightarrow> string \<Rightarrow> error + json" where
  "getitem_key (JObj kvs) k = dict_get kvs k"
| "getitem_key _ k = Inl TypeError"

text \<open>\<open>str(v)\<close> of a CSV cell, which is a string or \<open>None\<close>.\<close>

definition py_str :: "string option \<Rightarrow> string" where
  "py_str v = (case v of None \<Rightarrow> ''None'' | Some s \<Rightarrow> s)"

section \<open>Constants\<close>

definition INPUT_CSV :: string where
  "INPUT_CSV = ''public/libraries.csv''"

definition OUTPUT_JSON :: string where
  "OUTPUT_JSON = ''public/library-coords.json''"

definition NOMINATIM_URL :: string where
  "NOMINATIM_URL = ''https://nominatim.openstreetmap.org/search''"

section \<open>\<open>geocode_address\<close>\<close>

record coordinate =
  lat :: float64
  lng :: float64

text \<open>
  The request \<open>geocode_address\<close> builds: the endpoint, the query parameters handed to
  \<open>urlencode\<close> (values after \<open>str\<close>) and the headers. Percent-encoding is the
  library's and is not modelled.
\<close>

record request =
  endpoint :: string
  params :: "(string \<times> string) list"
  headers :: "(string \<times> string) list"

text \<open>
  Two library calls are parameters. \<open>fetch\<close> stands for
  \<open>json.loads(urlopen(req).read().decode())\<close>: the decoded body, or the exception raised
  by the transport, the decoding or the parser. \<open>to_float\<close> stands for the builtin
  \<open>float\<close>.
\<close>

definition search_request :: "string option \<Rightarrow> request" where
  "search_request address =
     \<lparr>endpoint = NOMINATIM_URL,
      params = [(''q'', py_str address), (''format'', ''json''), (''limit'', ''1'')],
      headers = [(''User-Agent'', ''HarvardLibrariesMap/1.0'')]\<rparr>"

definition geocode_address ::
  "(request \<Rightarrow> error + json) \<Rightarrow> (json \<Rightarrow> error + float64) \<Rightarrow> string option
    \<Rightarrow> error + coordinate option" where
  "geocode_address fetch to_float address =
    (let req = search_request address
     in case fetch req of
          Inl e \<Rightarrow> Inl e
        | Inr data \<Rightarrow>
            if truthy data then
              (case getitem_index data 0 of Inl e \<Rightarrow> Inl e | Inr d0 \<Rightarrow>
               case getitem_key d0 ''lat'' of Inl e \<Rightarrow> Inl e | Inr a \<Rightarrow>
               case to_float a of Inl e \<Rightarrow> Inl e | Inr la \<Rightarrow>
               case getitem_index data 0 of Inl e \<Rightarrow> Inl e | Inr d1 \<Rightarrow>
               case getitem_key d1 ''lon'' of Inl e \<Rightarrow> Inl e | Inr b \<Rightarrow>
               case to_float b of Inl e \<Rightarrow> Inl e | Inr lo \<Rightarrow>
                 Inr (Some \<lparr>lat = la, lng = lo\<rparr>))
            else Inr None)"

section \<open>Reading the input\<close>

text \<open>
  \<open>csv.DictReader\<close>: the first row the reader yields gives the field names; every later
  row that is not empty becomes a dict, assigned in field order; a short row is filled
  with \<open>None\<close>. The cells of a long row beyond the field names go under the key \<open>None\<close>,
  which \<open>main\<close> never reads, and are left out.
\<close>

record csv_file =
  fieldnames :: "string list"
  data_rows :: "string list list"

type_synonym row = "(string \<times> string option) list"

definition dict_row :: "string list \<Rightarrow> string list \<Rightarrow> row" where
  "dict_row fns r =
     fold (\<lambda>(k, v) d. dict_set k v d)
       (zip fns (map Some r @ replicate (length fns - length r) None)) []"

definition dict_reader :: "csv_file \<Rightarrow> row list" where
  "dict_reader f = map (dict_row (fieldnames f)) (filter (\<lambda>r. r \<noteq> []) (data_rows f))"

section \<open>\<open>main\<close>\<close>

type_synonym resultmap = "(string option \<times> coordinate) list"

text \<open>What the run does to the outside, in order: lines printed, lookups, pauses, the dump.\<close>

datatype event =
    Print_geocoding nat
  | Print_progress nat nat "string option"
  | Geocode "string option"
  | Print_ok coordinate
  | Print_failed
  | Sleep nat
  | Dump resultmap
  | Print_wrote nat
  | Print_warning int

text \<open>
  The environment of a run: the input file as \<open>open\<close> and \<open>csv\<close> deliver it (or the
  \<open>OSError\<close> of \<open>open\<close>), the answer of the service to the request of the \<open>i\<close>-th row,
  and the builtin \<open>float\<close>. The output path is taken to be writable.
\<close>

record env =
  open_csv :: "string \<Rightarrow> error + csv_file"
  urlopen :: "nat \<Rightarrow> request \<Rightarrow> error + json"
  py_float :: "json \<Rightarrow> error + float64"

record state =
  coords :: resultmap
  trace :: "event list"

definition emit :: "event \<Rightarrow> state \<Rightarrow> state" where
  "emit e st = st\<lparr>trace := trace st @ [e]\<rparr>"

text \<open>The body of the \<open>for\<close> loop for row \<open>i\<close> of \<open>n\<close>; \<open>Some e\<close> is an exception leaving it.\<close>

definition loop_body :: "env \<Rightarrow> nat \<Rightarrow> nat \<Rightarrow> row \<Rightarrow> state \<Rightarrow> state \<times> error option" where
  "loop_body env n i lib st =
    (case dict_get lib ''Id'' of Inl e \<Rightarrow> (st, Some e) | Inr lib_id \<Rightarrow>
     case dict_get lib ''Address'' of Inl e \<Rightarrow> (st, Some e) | Inr address \<Rightarrow>
     let st1 = emit (Print_progress (i + 1) n lib_id) st;
         st2 = emit (Geocode address) st1
     in case geocode_address (urlopen env i) (py_float env) address of
          Inl e \<Rightarrow> (st2, Some e)
        | Inr result \<Rightarrow>
            let st3 = (case result of
                         Some c \<Rightarrow> emit (Print_ok c) (st2\<lparr>coords := dict_set lib_id c (coords st2)\<rparr>)
                       | None \<Rightarrow> emit Print_failed st2);
                st4 = (if int i < int n - 1 then emit (Sleep 1) st3 else st3)
            in (st4, None))"

fun loop :: "env \<Rightarrow> nat \<Rightarrow> nat \<Rightarrow> row list \<Rightarrow> state \<Rightarrow> state \<times> error option" where
  "loop env n i [] st = (st, None)"
| "loop env n i (lib # libs) st =
     (case loop_body env n i lib st of
        (st', Some e) \<Rightarrow> (st', Some e)
      | (st', None) \<Rightarrow> loop env n (Suc i) libs st')"

text \<open>
  The file at \<open>OUTPUT_JSON\<close> after the run: as it was before, or the dump of a map.
  \<open>outcome\<close> is \<open>None\<close> when \<open>main\<close> returns and \<open>Some e\<close> when \<open>e\<close> leaves it uncaught.
\<close>

datatype out_file = Untouched | Dumped resultmap

record run =
  events :: "event list"
  persisted :: out_file
  outcome :: "error option"

definition main :: "env \<Rightarrow> run" where
  "main env =
    (case open_csv env INPUT_CSV of
       Inl e \<Rightarrow> \<lparr>events = [], persisted = Untouched, outcome = Some e\<rparr>
     | Inr f \<Rightarrow>
         let libraries = dict_reader f;
             st0 = \<lparr>coords = [], trace = [Print_geocoding (length libraries)]\<rparr>
         in case loop env (length libraries) 0 libraries st0 of
              (st, Some e) \<Rightarrow> \<lparr>events = trace st, persisted = Untouched, outcome = Some e\<rparr>
            | (st, None) \<Rightarrow>
                let failed = int (length libraries) - int (length (coords st))
                in \<lparr>events = (trace st @ [Dump (coords st), Print_wrote (length (coords st))])
                              @ (if failed \<noteq> 0 then [Print_warning failed] else []),
                    persisted = Dumped (coords st),
                    outcome = None\<rparr>)"

section \<open>Notions used to state the properties\<close>

text \<open>
  \<open>cell lib k\<close> is \<open>lib[k]\<close> for a key the row has. \<open>lookup env i lib\<close> is what
  \<open>geocode_address\<close> returns for row \<open>i\<close>. A file has the required columns when both
  names are in its header; a row dict has them when both are keys.
\<close>

definition cell :: "row \<Rightarrow> string \<Rightarrow> string option" where
  "cell lib k = (case map_of lib k of Some v \<Rightarrow> v | None \<Rightarrow> None)"

definition lib_ids :: "row list \<Rightarrow> string option list" where
  "lib_ids libs = map (\<lambda>lib. cell lib ''Id'') libs"

definition addresses :: "row list \<Rightarrow> string option list" where
  "addresses libs = map (\<lambda>lib. cell lib ''Address'') libs"

definition lookup :: "env \<Rightarrow> nat \<Rightarrow> row \<Rightarrow> error + coordinate option" where
  "lookup env i lib = geocode_address (urlopen env i) (py_float env) (cell lib ''Address'')"

definition has_columns :: "row \<Rightarrow> bool" where
  "has_columns lib = (''Id'' \<in> fst ` set lib \<and> ''Address'' \<in> fst ` set lib)"

definition required_columns :: "csv_file \<Rightarrow> bool" where
  "required_columns f = (''Id'' \<in> set (fieldnames f) \<and> ''Address'' \<in> set (fieldnames f))"

text \<open>
  The rows, numbered from \<open>i\<close>, whose lookup returns a coordinate, as (id, coordinate)
  pairs in input order; the dict obtained by assigning these pairs in order to an empty
  one; and the number of rows whose lookup returns \<open>None\<close>.
\<close>

fun hits :: "env \<Rightarrow> nat \<Rightarrow> row list \<Rightarrow> resultmap" where
  "hits env i [] = []"
| "hits env i (lib # libs) =
     (case lookup env i lib of Inr (Some c) \<Rightarrow> [(cell lib ''Id'', c)] | _ \<Rightarrow> [])
       @ hits env (Suc i) libs"

definition collected :: "env \<Rightarrow> row list \<Rightarrow> resultmap" where
  "collected env libs = fold (\<lambda>(k, c) d. dict_set k c d) (hits env 0 libs) []"

definition misses :: "env \<Rightarrow> nat \<Rightarrow> row list \<Rightarrow> nat" where
  "misses env i libs = length (filter (\<lambda>(j, lib). lookup env j lib = Inr None) (enumerate i libs))"

text \<open>
  The lookups and pauses of a trace, and the sequence in which every pause stands
  between two lookups: one lookup per address, one pause between neighbours.
\<close>

fun is_gate :: "event \<Rightarrow> bool" where
  "is_gate (Geocode a) = True"
| "is_gate (Sleep s) = True"
| "is_gate _ = False"

fun is_sleep :: "event \<Rightarrow> bool" where
  "is_sleep (Sleep s) = True"
| "is_sleep _ = False"

fun is_dump :: "event \<Rightarrow> bool" where
  "is_dump (Dump m) = True"
| "is_dump _ = False"

fun is_warning :: "event \<Rightarrow> bool" where
  "is_warning (Print_warning k) = True"
| "is_warning _ = False"

fun paced :: "string option list \<Rightarrow> event list" where
  "paced [] = []"
| "paced [a] = [Geocode a]"
| "paced (a # b # as) = Geocode a # Sleep 1 # paced (b # as)"

section \<open>Concrete inputs\<close>

text \<open>
  A small world for running the program on examples: a table standing for \<open>float\<close> on
  the strings the service sends, a service that knows two addresses, fails on one and
  finds nothing for any other, and an environment around an input file.
\<close>

definition harvard_yard :: coordinate where
  "harvard_yard = \<lparr>lat = 0x4045304189374BC7, lng = 0xC051C7780346DC5D\<rparr>"

definition widener :: coordinate where
  "widener = \<lparr>lat = 0x40452FD21FF2E48F, lng = 0xC051C705532617C2\<rparr>"

definition float_table :: "json \<Rightarrow> error + float64" where
  "float_table j =
     (case j of
        JStr s \<Rightarrow>
          (case map_of [(''42.3770'', 0x4045304189374BC7), (''-71.1167'', 0xC051C7780346DC5D),
                        (''42.3736'', 0x40452FD21FF2E48F), (''-71.1097'', 0xC051C705532617C2)] s of
             Some x \<Rightarrow> Inr x
           | None \<Rightarrow> Inl ValueError)
      | JFloat x \<Rightarrow> Inr x
      | _ \<Rightarrow> Inl TypeError)"

definition place :: "string \<Rightarrow> string \<Rightarrow> json" where
  "place la lo = JObj [(''place_id'', JInt 1), (''lat'', JStr la), (''lon'', JStr lo)]"

definition service :: "request \<Rightarrow> error + json" where
  "service req =
     (let q = map_of (params req) ''q''
      in if q = Some ''1 Harvard Yard, Cambridge, MA'' then Inr (JArr [place ''42.3770'' ''-71.1167''])
         else if q = Some ''Widener Library, Cambridge, MA'' then Inr (JArr [place ''42.3736'' ''-71.1097''])
         else if q = Some ''unreachable'' then Inl URLError
         else Inr (JArr []))"

definition env_of :: "csv_file \<Rightarrow> env" where
  "env_of f =
     \<lparr>open_csv = (\<lambda>p. if p = INPUT_CSV then Inr f else Inl OSError),
      urlopen = (\<lambda>i. service),
      py_float = float_table\<rparr>"

definition no_file :: env where
  "no_file = \<lparr>open_csv = (\<lambda>p. Inl OSError), urlopen = (\<lambda>i. service), py_float = float_table\<rparr>"

definition empty_csv :: csv_file where
  "empty_csv = \<lparr>fieldnames = [''Id'', ''Name'', ''Address''], data_rows = []\<rparr>"

definition two_libraries :: csv_file where
  "two_libraries =
     \<lparr>fieldnames = [''Id'', ''Name'', ''Address''],
      data_rows = [[''LIB01'', ''Yard'', ''1 Harvard Yard, Cambridge, MA''],
                   [''LIB02'', ''Widener'', ''Widener Library, Cambridge, MA'']]\<rparr>"

definition same_id_twice :: csv_file where
  "same_id_twice =
     \<lparr>fieldnames = [''Id'', ''Name'', ''Address''],
      data_rows = [[''LIB01'', ''Yard'', ''1 Harvard Yard, Cambridge, MA''],
                   [''LIB01'', ''Widener'', ''Widener Library, Cambridge, MA'']]\<rparr>"

definition one_unknown :: csv_file where
  "one_unknown =
     \<lparr>fieldnames = [''Id'', ''Name'', ''Address''],
      data_rows = [[''LIB01'', ''Yard'', ''1 Harvard Yard, Cambridge, MA''],
                   [''LIB02'', ''Nowhere'', ''no such place''],
                   [''LIB03'', ''Widener'', ''Widener Library, Cambridge, MA'']]\<rparr>"

definition one_unreachable :: csv_file where
  "one_unreachable =
     \<lparr>fieldnames = [''Id'', ''Name'', ''Address''],
      data_rows = [[''LIB01'', ''Yard'', ''1 Harvard Yard, Cambridge, MA''],
                   [''LIB02'', ''Down'', ''unreachable''],
                   [''LIB03'', ''Widener'', ''Widener Library, Cambridge, MA'']]\<rparr>"

definition hit_then_miss :: csv_file where
  "hit_then_miss =
     \<lparr>fieldnames = [''Id'', ''Name'', ''Address''],
      data_rows = [[''LIB01'', ''Yard'', ''1 Harvard Yard, Cambridge, MA''],
                   [''LIB01'', ''Yard again'', ''no such place'']]\<rparr>"

definition no_id_column :: csv_file where
  "no_id_column = \<lparr>fieldnames = [''Name'', ''Address''], data_rows = []\<rparr>"

definition no_id_column_one_row :: csv_file where
  "no_id_column_one_row =
     \<lparr>fieldnames = [''Name'', ''Address''],
      data_rows = [[''Yard'', ''1 Harvard Yard, Cambridge, MA'']]\<rparr>"

section \<open>Auxiliary facts\<close>

subsection \<open>Dictionaries\<close>

lemma map_of_dict_set: "map_of (dict_set k v d) = (map_of d)(k \<mapsto> v)"
  by (induction d) auto

lemma keys_dict_set:
  "map fst (dict_set k v d) = (if k \<in> fst ` set d then map fst d else map fst d @ [k])"
  by (induction d) auto

lemma dict_set_fresh: "k \<notin> fst ` set d \<Longrightarrow> dict_set k v d = d @ [(k, v)]"
  by (induction d) auto

lemma keys_fold_dict_set:
  "fst ` set (fold (\<lambda>(k, v) d. dict_set k v d) kvs d) = fst ` set d \<union> fst ` set kvs"
proof (induction kvs arbitrary: d)
  case Nil
  then show ?case by simp
next
  case (Cons kv kvs)
  obtain k v where kv: "kv = (k, v)" by (cases kv)
  have "fst ` set (dict_set k v d) = insert k (fst ` set d)"
    using keys_dict_set [of k v d] by (metis (no_types) insert_absorb list.set_map set_append list.simps(15) Un_insert_right sup_bot.right_neutral empty_set)
  then show ?case using Cons.IH [of "dict_set k v d"] kv by auto
qed

lemma distinct_fold_dict_set:
  "distinct (map fst d) \<Longrightarrow> distinct (map fst (fold (\<lambda>(k, v) d. dict_set k v d) kvs d))"
  by (induction kvs arbitrary: d) (auto simp: keys_dict_set)

lemma fold_dict_set_fresh:
  "distinct (map fst kvs) \<Longrightarrow> fst ` set kvs \<inter> fst ` set d = {} \<Longrightarrow>
   fold (\<lambda>(k, v) d. dict_set k v d) kvs d = d @ kvs"
proof (induction kvs arbitrary: d)
  case Nil
  then show ?case by simp
next
  case (Cons kv kvs)
  obtain k v where kv: "kv = (k, v)" by (cases kv)
  have fresh: "k \<notin> fst ` set d" using Cons.prems kv by auto
  have "fst ` set kvs \<inter> fst ` set (d @ [(k, v)]) = {}"
    using Cons.prems kv by auto
  then have "fold (\<lambda>(k, v) d. dict_set k v d) kvs (d @ [(k, v)]) = (d @ [(k, v)]) @ kvs"
    using Cons.prems by (intro Cons.IH) simp_all
  then show ?case using kv fresh by (simp add: dict_set_fresh)
qed

lemma map_of_fold_dict_set:
  "map_of (fold (\<lambda>(k, v) d. dict_set k v d) kvs d) = map_of d ++ map_of (rev kvs)"
proof (induction kvs arbitrary: d)
  case Nil
  then show ?case by simp
next
  case (Cons kv kvs)
  obtain k v where kv: "kv = (k, v)" by (cases kv)
  show ?case using Cons.IH [of "dict_set k v d"] kv
    by (simp add: map_of_dict_set map_add_def fun_eq_iff split: option.splits)
qed

lemma keys_dict_row: "fst ` set (dict_row fns r) = set fns"
proof -
  let ?vs = "map Some r @ replicate (length fns - length r) None"
  have "length fns \<le> length ?vs" by simp
  then have "map fst (zip fns ?vs) = fns"
    by (metis map_fst_zip_take min.absorb_iff1 take_all order_refl)
  then have "fst ` set (zip fns ?vs) = set fns"
    by (metis list.set_map)
  then show ?thesis by (simp add: dict_row_def keys_fold_dict_set)
qed

lemma has_columns_dict_reader:
  "lib \<in> set (dict_reader f) \<Longrightarrow> has_columns lib = required_columns f"
proof -
  assume "lib \<in> set (dict_reader f)"
  then obtain r where "lib = dict_row (fieldnames f) r"
    by (auto simp: dict_reader_def)
  then show ?thesis
    by (simp add: has_columns_def required_columns_def keys_dict_row)
qed

subsection \<open>One pass of the loop body\<close>

lemma dict_get_present: "k \<in> fst ` set lib \<Longrightarrow> dict_get lib k = Inr (cell lib k)"
  by (auto simp: dict_get_def cell_def map_of_eq_None_iff split: option.splits)

lemma dict_get_absent: "k \<notin> fst ` set lib \<Longrightarrow> dict_get lib k = Inl KeyError"
  by (auto simp: dict_get_def map_of_eq_None_iff split: option.splits)

lemma loop_body_columns:
  "has_columns lib \<Longrightarrow> loop_body env n i lib st =
    (let st2 = st\<lparr>trace := trace st @
                 [Print_progress (i + 1) n (cell lib ''Id''), Geocode (cell lib ''Address'')]\<rparr>
     in case lookup env i lib of
       Inl e \<Rightarrow> (st2, Some e)
     | Inr None \<Rightarrow>
         (st2\<lparr>trace := trace st2 @ Print_failed # (if Suc i < n then [Sleep 1] else [])\<rparr>, None)
     | Inr (Some c) \<Rightarrow>
         (st2\<lparr>coords := dict_set (cell lib ''Id'') c (coords st),
              trace := trace st2 @ Print_ok c # (if Suc i < n then [Sleep 1] else [])\<rparr>, None))"
  by (auto simp: loop_body_def has_columns_def dict_get_present lookup_def emit_def Let_def
      split: sum.splits option.splits)

lemma loop_body_no_columns:
  "\<not> has_columns lib \<Longrightarrow> loop_body env n i lib st = (st, Some KeyError)"
  by (cases "''Id'' \<in> fst ` set lib")
    (auto simp: loop_body_def has_columns_def dict_get_present dict_get_absent)

lemma loop_body_coords:
  "coords (fst (loop_body env n i lib st)) =
     (if has_columns lib
      then (case lookup env i lib of
              Inr (Some c) \<Rightarrow> dict_set (cell lib ''Id'') c (coords st)
            | _ \<Rightarrow> coords st)
      else coords st)"
  by (auto simp: loop_body_columns loop_body_no_columns Let_def split: sum.splits option.splits)

lemma loop_body_raise:
  "has_columns lib \<Longrightarrow> lookup env i lib = Inl e \<Longrightarrow>
   \<exists>st'. loop_body env n i lib st = (st', Some e) \<and>
     coords st' = coords st \<and>
     trace st' = trace st @ [Print_progress (i + 1) n (cell lib ''Id''), Geocode (cell lib ''Address'')]"
  by (simp add: loop_body_columns Let_def)

subsection \<open>The loop\<close>

lemma loop_append:
  "loop env n i (xs @ ys) st =
     (case loop env n i xs st of
        (st', Some e) \<Rightarrow> (st', Some e)
      | (st', None) \<Rightarrow> loop env n (i + length xs) ys st')"
  by (induction xs arbitrary: i st) (auto split: prod.splits option.splits)

lemma loop_complete:
  "\<forall>lib \<in> set libs. has_columns lib \<Longrightarrow>
   \<forall>(j, lib) \<in> set (enumerate i libs). \<exists>r. lookup env j lib = Inr r \<Longrightarrow>
   snd (loop env n i libs st) = None \<and>
   coords (fst (loop env n i libs st)) =
     fold (\<lambda>(k, c) d. dict_set k c d) (hits env i libs) (coords st)"
proof (induction libs arbitrary: i st)
  case Nil
  then show ?case by simp
next
  case (Cons lib libs)
  from Cons.prems obtain r where r: "lookup env i lib = Inr r" by auto
  have cols: "has_columns lib" using Cons.prems by simp
  obtain st' where st': "loop_body env n i lib st = (st', None)"
    and c': "coords st' =
      (case r of Some c \<Rightarrow> dict_set (cell lib ''Id'') c (coords st) | None \<Rightarrow> coords st)"
    using r by (cases r) (simp_all add: loop_body_columns [OF cols] Let_def)
  have ih: "snd (loop env n (Suc i) libs st') = None \<and>
    coords (fst (loop env n (Suc i) libs st')) =
      fold (\<lambda>(k, c) d. dict_set k c d) (hits env (Suc i) libs) (coords st')"
    using Cons.prems by (intro Cons.IH) auto
  show ?case using ih st' c' r by (cases r) simp_all
qed

lemma length_hits:
  "\<forall>(j, lib) \<in> set (enumerate i libs). \<exists>r. lookup env j lib = Inr r \<Longrightarrow>
   length (hits env i libs) + misses env i libs = length libs"
proof (induction libs arbitrary: i)
  case Nil
  then show ?case by (simp add: misses_def)
next
  case (Cons lib libs)
  from Cons.prems obtain r where r: "lookup env i lib = Inr r" by auto
  have "length (hits env (Suc i) libs) + misses env (Suc i) libs = length libs"
    using Cons.prems by (intro Cons.IH) auto
  then show ?case using r by (cases r) (simp_all add: misses_def)
qed

lemma keys_hits_all:
  "\<forall>(j, lib) \<in> set (enumerate i libs). \<exists>c. lookup env j lib = Inr (Some c) \<Longrightarrow>
   map fst (hits env i libs) = lib_ids libs"
proof (induction libs arbitrary: i)
  case Nil
  then show ?case by (simp add: lib_ids_def)
next
  case (Cons lib libs)
  from Cons.prems obtain c where c: "lookup env i lib = Inr (Some c)" by auto
  have "map fst (hits env (Suc i) libs) = lib_ids libs"
    using Cons.prems by (intro Cons.IH) auto
  then show ?case using c by (simp add: lib_ids_def)
qed

subsection \<open>The example world\<close>

lemma lookup_env_of:
  "lookup (env_of f) j lib = geocode_address service float_table (cell lib ''Address'')"
  by (simp add: lookup_def env_of_def)

lemma service_yard:
  "geocode_address service float_table (Some ''1 Harvard Yard, Cambridge, MA'') = Inr (Some harvard_yard)"
  by (simp add: geocode_address_def service_def search_request_def py_str_def place_def
      dict_get_def float_table_def harvard_yard_def)

lemma service_widener:
  "geocode_address service float_table (Some ''Widener Library, Cambridge, MA'') = Inr (Some widener)"
  by (simp add: geocode_address_def service_def search_request_def py_str_def place_def
      dict_get_def float_table_def widener_def)

lemma service_unknown:
  "geocode_address service float_table (Some ''no such place'') = Inr None"
  by (simp add: geocode_address_def service_def search_request_def py_str_def)

lemma service_unreachable:
  "geocode_address service float_table (Some ''unreachable'') = Inl URLError"
  by (simp add: geocode_address_def service_def search_request_def py_str_def)

lemmas service_answers =
  lookup_env_of service_yard service_widener service_unknown service_unreachable

lemma open_env_of: "open_csv (env_of f) INPUT_CSV = Inr f"
  by (simp add: env_of_def)

lemma rows_two_libraries:
  "dict_reader two_libraries =
    [[(''Id'', Some ''LIB01''), (''Name'', Some ''Yard''),
      (''Address'', Some ''1 Harvard Yard, Cambridge, MA'')],
     [(''Id'', Some ''LIB02''), (''Name'', Some ''Widener''),
      (''Address'', Some ''Widener Library, Cambridge, MA'')]]"
  by (simp add: dict_reader_def dict_row_def two_libraries_def)

lemma rows_same_id_twice:
  "dict_reader same_id_twice =
    [[(''Id'', Some ''LIB01''), (''Name'', Some ''Yard''),
      (''Address'', Some ''1 Harvard Yard, Cambridge, MA'')],
     [(''Id'', Some ''LIB01''), (''Name'', Some ''Widener''),
      (''Address'', Some ''Widener Library, Cambridge, MA'')]]"
  by (simp add: dict_reader_def dict_row_def same_id_twice_def)

lemma rows_one_unknown:
  "dict_reader one_unknown =
    [[(''Id'', Some ''LIB01''), (''Name'', Some ''Yard''),
      (''Address'', Some ''1 Harvard Yard, Cambridge, MA'')],
     [(''Id'', Some ''LIB02''), (''Name'', Some ''Nowhere''), (''Address'', Some ''no such place'')],
     [(''Id'', Some ''LIB03''), (''Name'', Some ''Widener''),
      (''Address'', Some ''Widener Library, Cambridge, MA'')]]"
  by (simp add: dict_reader_def dict_row_def one_unknown_def)

lemma main_same_id_twice:
  "main (env_of same_id_twice) =
    \<lparr>events =
       [Print_geocoding 2,
        Print_progress 1 2 (Some ''LIB01''), Geocode (Some ''1 Harvard Yard, Cambridge, MA''),
        Print_ok harvard_yard, Sleep 1,
        Print_progress 2 2 (Some ''LIB01''), Geocode (Some ''Widener Library, Cambridge, MA''),
        Print_ok widener,
        Dump [(Some ''LIB01'', widener)], Print_wrote 1, Print_warning 1],
     persisted = Dumped [(Some ''LIB01'', widener)],
     outcome = None\<rparr>"
  by (simp add: main_def open_env_of rows_same_id_twice loop_body_def dict_get_def emit_def
      service_yard service_widener env_of_def)

lemma rows_hit_then_miss:
  "dict_reader hit_then_miss =
    [[(''Id'', Some ''LIB01''), (''Name'', Some ''Yard''),
      (''Address'', Some ''1 Harvard Yard, Cambridge, MA'')],
     [(''Id'', Some ''LIB01''), (''Name'', Some ''Yard again''), (''Address'', Some ''no such place'')]]"
  by (simp add: dict_reader_def dict_row_def hit_then_miss_def)

section \<open>Remote lookup\<close>

lemma geocode_address_empty:
  "fetch (search_request address) = Inr (JArr []) \<Longrightarrow>
   geocode_address fetch to_float address = Inr None"
  by (simp add: geocode_address_def)

lemma geocode_address_first:
  assumes "fetch (search_request address) = Inr (JArr (JObj kvs # rest))"
    and "map_of kvs ''lat'' = Some a" and "to_float a = Inr x"
    and "map_of kvs ''lon'' = Some b" and "to_float b = Inr y"
  shows "geocode_address fetch to_float address = Inr (Some \<lparr>lat = x, lng = y\<rparr>)"
  using assms by (simp add: geocode_address_def dict_get_def)

lemma geocode_address_nonempty:
  "fetch (search_request address) = Inr (JArr (d # rest)) \<Longrightarrow>
   geocode_address fetch to_float address \<noteq> Inr None"
  by (simp add: geocode_address_def split: sum.splits)

text \<open>
  C4. For every address: when the response array is empty, \<open>geocode_address\<close> returns
  \<open>None\<close> and raises nothing; when it is not empty and its first entry is an object
  whose \<open>lat\<close> and \<open>lon\<close> convert to floats (the shape the service documents), it returns
  the coordinate made of exactly these two values, whatever the later entries are; and
  on a non-empty array it never returns \<open>None\<close>.
\<close>

theorem geocode_address_first_entry_or_none:
  "(fetch (search_request address) = Inr (JArr []) \<longrightarrow>
      geocode_address fetch to_float address = Inr None) \<and>
   (fetch (search_request address) = Inr (JArr (JObj kvs # rest)) \<and>
    map_of kvs ''lat'' = Some a \<and> to_float a = Inr x \<and>
    map_of kvs ''lon'' = Some b \<and> to_float b = Inr y \<longrightarrow>
      geocode_address fetch to_float address = Inr (Some \<lparr>lat = x, lng = y\<rparr>)) \<and>
   (fetch (search_request address) = Inr (JArr (d # rest)) \<longrightarrow>
      geocode_address fetch to_float address \<noteq> Inr None)"
  using geocode_address_empty geocode_address_first geocode_address_nonempty by blast

theorem geocode_address_first_entry_or_none_witness:
  "geocode_address service float_table (Some ''no such place'') = Inr None \<and>
   geocode_address service float_table (Some ''1 Harvard Yard, Cambridge, MA'')
     = Inr (Some \<lparr>lat = 0x4045304189374BC7, lng = 0xC051C7780346DC5D\<rparr>) \<and>
   geocode_address service float_table (Some ''1 Harvard Yard, Cambridge, MA'') \<noteq> Inr None"
proof -
  let ?yard = "Some ''1 Harvard Yard, Cambridge, MA''"
  let ?kvs = "[(''place_id'', JInt 1), (''lat'', JStr ''42.3770''), (''lon'', JStr ''-71.1167'')]"
  have none: "service (search_request (Some ''no such place'')) = Inr (JArr [])"
    by (simp add: service_def search_request_def py_str_def)
  have one: "service (search_request ?yard) = Inr (JArr (JObj ?kvs # []))"
    by (simp add: service_def search_request_def py_str_def place_def)
  have la: "map_of ?kvs ''lat'' = Some (JStr ''42.3770'')"
    and lo: "map_of ?kvs ''lon'' = Some (JStr ''-71.1167'')"
    by simp_all
  have fa: "float_table (JStr ''42.3770'') = Inr 0x4045304189374BC7"
    and fo: "float_table (JStr ''-71.1167'') = Inr 0xC051C7780346DC5D"
    by (simp_all add: float_table_def)
  show ?thesis
    using geocode_address_first_entry_or_none [of service "Some ''no such place''" float_table]
      geocode_address_first_entry_or_none
        [of service ?yard float_table ?kvs "[]" "JStr ''42.3770''" "0x4045304189374BC7"
          "JStr ''-71.1167''" "0xC051C7780346DC5D" "JObj ?kvs"]
      none one la lo fa fo
    by simp
qed

section \<open>Empty input\<close>

text \<open>
  C8. When the input file has no data row, the run returns normally: no lookup and no
  pause happen, the empty map is written, and the only lines printed are the opening line
  and the summary with 0 coordinates; no warning line is printed.
\<close>

theorem main_empty_input:
  assumes "open_csv env INPUT_CSV = Inr f" and "dict_reader f = []"
  shows "main env = \<lparr>events = [Print_geocoding 0, Dump [], Print_wrote 0],
                      persisted = Dumped [], outcome = None\<rparr>"
  using assms by (simp add: main_def)

theorem main_empty_input_witness:
  "main (env_of empty_csv) = \<lparr>events = [Print_geocoding 0, Dump [], Print_wrote 0],
                      persisted = Dumped [], outcome = None\<rparr>"
proof -
  have "open_csv (env_of empty_csv) INPUT_CSV = Inr empty_csv"
    by (simp add: env_of_def)
  moreover have "dict_reader empty_csv = []"
    by (simp add: dict_reader_def empty_csv_def)
  ultimately show ?thesis by (rule main_empty_input)
qed

section \<open>Input errors\<close>

lemma loop_body_trace_filter:
  assumes "\<And>a b c. \<not> P (Print_progress a b c)" and "\<And>a. \<not> P (Geocode a)"
    and "\<And>c. \<not> P (Print_ok c)" and "\<not> P Print_failed" and "\<And>s. \<not> P (Sleep s)"
  shows "filter P (trace (fst (loop_body env n i lib st))) = filter P (trace st)"
proof (cases "has_columns lib")
  case True
  then show ?thesis using assms
    by (simp add: loop_body_columns Let_def split: sum.splits option.splits)
next
  case False
  then show ?thesis by (simp add: loop_body_no_columns)
qed

lemma loop_trace_filter:
  assumes "\<And>a b c. \<not> P (Print_progress a b c)" and "\<And>a. \<not> P (Geocode a)"
    and "\<And>c. \<not> P (Print_ok c)" and "\<not> P Print_failed" and "\<And>s. \<not> P (Sleep s)"
  shows "filter P (trace (fst (loop env n i libs st))) = filter P (trace st)"
proof (induction libs arbitrary: i st)
  case Nil
  then show ?case by simp
next
  case (Cons lib libs)
  obtain st1 oc where b: "loop_body env n i lib st = (st1, oc)"
    by (cases "loop_body env n i lib st")
  have "filter P (trace st1) = filter P (trace st)"
    using loop_body_trace_filter [of P env n i lib st, OF assms] b by simp
  then show ?case using b Cons.IH [of "Suc i" st1] by (cases oc) simp_all
qed

lemma main_open_error:
  "open_csv env INPUT_CSV = Inl e \<Longrightarrow>
   main env = \<lparr>events = [], persisted = Untouched, outcome = Some e\<rparr>"
  by (simp add: main_def)

lemma main_missing_column:
  assumes "open_csv env INPUT_CSV = Inr f" and "\<not> required_columns f" and "dict_reader f \<noteq> []"
  shows "main env = \<lparr>events = [Print_geocoding (length (dict_reader f))],
                      persisted = Untouched, outcome = Some KeyError\<rparr>"
proof -
  obtain lib libs where libs: "dict_reader f = lib # libs"
    using assms(3) by (cases "dict_reader f") auto
  then have "\<not> has_columns lib"
    using has_columns_dict_reader [of lib f] assms(2) by simp
  then show ?thesis
    using assms(1) libs by (simp add: main_def loop_body_no_columns)
qed

text \<open>
  C7, as amended. When the input file cannot be opened or read, the run ends with that
  error before anything is printed or written. When the header lacks \<open>Id\<close> or
  \<open>Address\<close> and the file has at least one data row, the run ends with \<open>KeyError\<close> at the
  first row, after the opening line only: no lookup, no pause, no write.
\<close>

theorem main_input_errors:
  "(open_csv env INPUT_CSV = Inl e \<longrightarrow>
      main env = \<lparr>events = [], persisted = Untouched, outcome = Some e\<rparr>) \<and>
   (open_csv env INPUT_CSV = Inr f \<and> \<not> required_columns f \<and> dict_reader f \<noteq> [] \<longrightarrow>
      main env = \<lparr>events = [Print_geocoding (length (dict_reader f))],
                   persisted = Untouched, outcome = Some KeyError\<rparr>)"
  using main_open_error main_missing_column by blast

theorem main_input_errors_witness:
  "main no_file = \<lparr>events = [], persisted = Untouched, outcome = Some OSError\<rparr> \<and>
   main (env_of no_id_column_one_row) =
     \<lparr>events = [Print_geocoding 1], persisted = Untouched, outcome = Some KeyError\<rparr>"
proof -
  have a: "open_csv no_file INPUT_CSV = Inl OSError"
    by (simp add: no_file_def)
  have b: "open_csv (env_of no_id_column_one_row) INPUT_CSV = Inr no_id_column_one_row"
    by (simp add: env_of_def)
  have c: "\<not> required_columns no_id_column_one_row"
    by (simp add: required_columns_def no_id_column_one_row_def)
  have d: "dict_reader no_id_column_one_row \<noteq> []" "length (dict_reader no_id_column_one_row) = 1"
    by (simp_all add: dict_reader_def no_id_column_one_row_def)
  show ?thesis
    using main_input_errors [of no_file OSError]
      main_input_errors [of "env_of no_id_column_one_row" _ no_id_column_one_row] a b c d
    by simp
qed

text \<open>
  The claim as written fails on a header without \<open>Id\<close> when the file has no data row:
  nothing reads a column, and the run writes the empty map and returns normally.
\<close>

theorem missing_column_no_rows_counterexample:
  "\<not> required_columns no_id_column \<and>
   open_csv (env_of no_id_column) INPUT_CSV = Inr no_id_column \<and>
   main (env_of no_id_column) =
     \<lparr>events = [Print_geocoding 0, Dump [], Print_wrote 0], persisted = Dumped [], outcome = None\<rparr>"
  by (simp add: required_columns_def no_id_column_def env_of_def main_def dict_reader_def)

section \<open>Lookups that raise\<close>

lemma paced_snoc:
  "concat (map (\<lambda>a. [Geocode a, Sleep 1]) as) @ [Geocode b] = paced (as @ [b])"
proof (induction as)
  case Nil
  then show ?case by simp
next
  case (Cons a as)
  then show ?case by (cases as) simp_all
qed

lemma loop_not_last:
  "\<forall>lib \<in> set libs. has_columns lib \<Longrightarrow>
   \<forall>(j, lib) \<in> set (enumerate i libs). \<exists>r. lookup env j lib = Inr r \<Longrightarrow>
   i + length libs < n \<Longrightarrow>
   snd (loop env n i libs st) = None \<and>
   filter is_gate (trace (fst (loop env n i libs st))) =
     filter is_gate (trace st) @ concat (map (\<lambda>a. [Geocode a, Sleep 1]) (addresses libs))"
proof (induction libs arbitrary: i st)
  case Nil
  then show ?case by (simp add: addresses_def)
next
  case (Cons lib libs)
  from Cons.prems obtain r where r: "lookup env i lib = Inr r" by auto
  have cols: "has_columns lib" using Cons.prems by simp
  have lt: "Suc i < n" using Cons.prems by simp
  obtain st' where st': "loop_body env n i lib st = (st', None)"
    and g: "filter is_gate (trace st') =
      filter is_gate (trace st) @ [Geocode (cell lib ''Address''), Sleep 1]"
    using r lt by (cases r) (simp_all add: loop_body_columns [OF cols] Let_def)
  have ih: "snd (loop env n (Suc i) libs st') = None \<and>
    filter is_gate (trace (fst (loop env n (Suc i) libs st'))) =
      filter is_gate (trace st') @ concat (map (\<lambda>a. [Geocode a, Sleep 1]) (addresses libs))"
    using Cons.prems by (intro Cons.IH) auto
  show ?case using ih st' g by (simp add: addresses_def)
qed

lemma loop_raise:
  assumes cols: "\<forall>l \<in> set (pre @ lib # post). has_columns l"
    and ok: "\<forall>(j, l) \<in> set (enumerate 0 pre). \<exists>r. lookup env j l = Inr r"
    and bad: "lookup env (length pre) lib = Inl e"
    and n: "length pre < n"
  shows "\<exists>st'. loop env n 0 (pre @ lib # post) st = (st', Some e) \<and>
    filter is_gate (trace st') = filter is_gate (trace st) @ paced (addresses (pre @ [lib])) \<and>
    last (trace st') = Geocode (cell lib ''Address'')"
proof -
  have pre: "snd (loop env n 0 pre st) = None \<and>
    filter is_gate (trace (fst (loop env n 0 pre st))) =
      filter is_gate (trace st) @ concat (map (\<lambda>a. [Geocode a, Sleep 1]) (addresses pre))"
    using cols ok n by (intro loop_not_last) auto
  obtain st1 where st1: "loop env n 0 pre st = (st1, None)"
    using pre by (cases "loop env n 0 pre st") auto
  have c: "has_columns lib" using cols by simp
  obtain st2 where st2: "loop_body env n (length pre) lib st1 = (st2, Some e)"
    and t2: "trace st2 = trace st1 @
      [Print_progress (length pre + 1) n (cell lib ''Id''), Geocode (cell lib ''Address'')]"
    using loop_body_raise [OF c bad] by blast
  have run: "loop env n 0 (pre @ lib # post) st = (st2, Some e)"
    using st1 st2 by (simp add: loop_append)
  have "filter is_gate (trace st2) =
      filter is_gate (trace st) @
        (concat (map (\<lambda>a. [Geocode a, Sleep 1]) (addresses pre)) @ [Geocode (cell lib ''Address'')])"
    using pre st1 t2 by simp
  then have "filter is_gate (trace st2) =
      filter is_gate (trace st) @ paced (addresses (pre @ [lib]))"
    by (simp only: paced_snoc) (simp add: addresses_def)
  then show ?thesis using run t2 by simp
qed

text \<open>
  C3. Let the input be readable with both columns, and let the lookup raise \<open>e\<close> at some
  row while every earlier row's lookup returned. Then the run ends with \<open>e\<close> uncaught;
  the lookups made are those of the rows up to and including that row, each pause
  standing between two of them; the raising lookup is the last thing the run does; and
  the output file is not written: no dump happens and the file stays as it was.
\<close>

theorem main_lookup_raises:
  assumes "open_csv env INPUT_CSV = Inr f" and "required_columns f"
    and "dict_reader f = pre @ lib # post"
    and "\<forall>(j, l) \<in> set (enumerate 0 pre). \<exists>r. lookup env j l = Inr r"
    and "lookup env (length pre) lib = Inl e"
  shows "outcome (main env) = Some e \<and>
    persisted (main env) = Untouched \<and>
    filter is_dump (events (main env)) = [] \<and>
    filter is_gate (events (main env)) = paced (addresses (pre @ [lib])) \<and>
    last (events (main env)) = Geocode (cell lib ''Address'')"
proof -
  let ?libs = "dict_reader f"
  let ?st0 = "\<lparr>coords = [], trace = [Print_geocoding (length ?libs)]\<rparr>"
  have cols: "\<forall>l \<in> set (pre @ lib # post). has_columns l"
    using assms(2,3) has_columns_dict_reader [of _ f] by auto
  have n: "length pre < length ?libs" using assms(3) by simp
  obtain st' where run: "loop env (length ?libs) 0 (pre @ lib # post) ?st0 = (st', Some e)"
    and g: "filter is_gate (trace st') =
      filter is_gate (trace ?st0) @ paced (addresses (pre @ [lib]))"
    and l: "last (trace st') = Geocode (cell lib ''Address'')"
    using loop_raise [OF cols assms(4) assms(5) n, of ?st0] by blast
  have d: "filter is_dump (trace (fst (loop env (length ?libs) 0 ?libs ?st0))) =
      filter is_dump (trace ?st0)"
    by (rule loop_trace_filter) simp_all
  have m: "main env = \<lparr>events = trace st', persisted = Untouched, outcome = Some e\<rparr>"
    using assms(1) run assms(3) by (simp add: main_def)
  show ?thesis using m g l d run assms(3) by simp
qed

theorem main_lookup_raises_witness:
  "outcome (main (env_of one_unreachable)) = Some URLError \<and>
   persisted (main (env_of one_unreachable)) = Untouched \<and>
   filter is_dump (events (main (env_of one_unreachable))) = [] \<and>
   filter is_gate (events (main (env_of one_unreachable))) =
     [Geocode (Some ''1 Harvard Yard, Cambridge, MA''), Sleep 1, Geocode (Some ''unreachable'')] \<and>
   last (events (main (env_of one_unreachable))) = Geocode (Some ''unreachable'')"
proof -
  let ?env = "env_of one_unreachable"
  let ?r0 = "[(''Id'', Some ''LIB01''), (''Name'', Some ''Yard''),
              (''Address'', Some ''1 Harvard Yard, Cambridge, MA'')]"
  let ?r1 = "[(''Id'', Some ''LIB02''), (''Name'', Some ''Down''), (''Address'', Some ''unreachable'')]"
  let ?r2 = "[(''Id'', Some ''LIB03''), (''Name'', Some ''Widener''),
              (''Address'', Some ''Widener Library, Cambridge, MA'')]"
  have a: "open_csv ?env INPUT_CSV = Inr one_unreachable"
    by (simp add: env_of_def)
  have b: "required_columns one_unreachable"
    by (simp add: required_columns_def one_unreachable_def)
  have c: "dict_reader one_unreachable = [?r0] @ ?r1 # [?r2]"
    by (simp add: dict_reader_def dict_row_def one_unreachable_def)
  have d: "\<forall>(j, l) \<in> set (enumerate 0 [?r0]). \<exists>r. lookup ?env j l = Inr r"
    by (simp add: lookup_def geocode_address_def env_of_def service_def search_request_def
        cell_def py_str_def place_def dict_get_def float_table_def)
  have e: "lookup ?env (length [?r0]) ?r1 = Inl URLError"
    by (simp add: lookup_def geocode_address_def env_of_def service_def search_request_def
        cell_def py_str_def)
  show ?thesis
    using main_lookup_raises [OF a b c d e] by (simp add: addresses_def cell_def)
qed

section \<open>The output map\<close>

lemma keys_hits_subset: "fst ` set (hits env i libs) \<subseteq> set (lib_ids libs)"
  by (induction libs arbitrary: i) (auto simp: lib_ids_def split: sum.splits option.splits)

lemma distinct_hits: "distinct (lib_ids libs) \<Longrightarrow> distinct (map fst (hits env i libs))"
proof (induction libs arbitrary: i)
  case Nil
  then show ?case by simp
next
  case (Cons lib libs)
  have "cell lib ''Id'' \<notin> fst ` set (hits env (Suc i) libs)"
    using Cons.prems keys_hits_subset [of env "Suc i" libs] by (auto simp: lib_ids_def)
  moreover have "distinct (map fst (hits env (Suc i) libs))"
    using Cons by (simp add: lib_ids_def)
  ultimately show ?case by (auto split: sum.splits option.splits)
qed

lemma keys_collected: "fst ` set (collected env libs) = fst ` set (hits env 0 libs)"
  by (simp add: collected_def keys_fold_dict_set)

lemma distinct_collected: "distinct (map fst (collected env libs))"
  by (simp add: collected_def distinct_fold_dict_set)

lemma collected_distinct: "distinct (lib_ids libs) \<Longrightarrow> collected env libs = hits env 0 libs"
  using fold_dict_set_fresh [of "hits env 0 libs" "[]"] distinct_hits [of libs env 0]
  by (simp add: collected_def)

lemma main_complete:
  assumes "open_csv env INPUT_CSV = Inr f" and "required_columns f"
    and "\<forall>(j, lib) \<in> set (enumerate 0 (dict_reader f)). \<exists>r. lookup env j lib = Inr r"
  shows "outcome (main env) = None \<and>
    persisted (main env) = Dumped (collected env (dict_reader f)) \<and>
    filter is_warning (events (main env)) =
      (if int (length (dict_reader f)) - int (length (collected env (dict_reader f))) \<noteq> 0
       then [Print_warning (int (length (dict_reader f)) - int (length (collected env (dict_reader f))))]
       else [])"
proof -
  let ?libs = "dict_reader f"
  let ?st0 = "\<lparr>coords = [], trace = [Print_geocoding (length ?libs)]\<rparr>"
  have cols: "\<forall>lib \<in> set ?libs. has_columns lib"
    using assms(2) has_columns_dict_reader [of _ f] by auto
  have l: "snd (loop env (length ?libs) 0 ?libs ?st0) = None \<and>
      coords (fst (loop env (length ?libs) 0 ?libs ?st0)) =
        fold (\<lambda>(k, c) d. dict_set k c d) (hits env 0 ?libs) (coords ?st0)"
    using cols assms(3) by (rule loop_complete)
  obtain st where st: "loop env (length ?libs) 0 ?libs ?st0 = (st, None)"
    using l by (cases "loop env (length ?libs) 0 ?libs ?st0") auto
  have w: "filter is_warning (trace (fst (loop env (length ?libs) 0 ?libs ?st0))) =
      filter is_warning (trace ?st0)"
    by (rule loop_trace_filter) simp_all
  have "filter is_warning (trace st) = []" using w st by simp
  moreover have "coords st = collected env ?libs"
    using l st by (simp add: collected_def)
  ultimately show ?thesis using assms(1) st by (simp add: main_def Let_def)
qed

text \<open>
  C1, as amended. Let the input be readable with both columns and let the lookup return
  a coordinate for every row. Then the run returns normally and writes a map whose key
  set is the set of input ids, with one entry per different id. When the ids of the \<open>N\<close>
  rows are pairwise different, the map has exactly \<open>N\<close> entries: its keys are the input
  ids in input order, each with the coordinate its row's lookup returned.
\<close>

theorem main_all_found:
  assumes "open_csv env INPUT_CSV = Inr f" and "required_columns f"
    and "\<forall>(j, lib) \<in> set (enumerate 0 (dict_reader f)). \<exists>c. lookup env j lib = Inr (Some c)"
  shows "outcome (main env) = None \<and>
    (\<exists>m. persisted (main env) = Dumped m \<and>
       fst ` set m = set (lib_ids (dict_reader f)) \<and>
       length m = card (set (lib_ids (dict_reader f))) \<and>
       (distinct (lib_ids (dict_reader f)) \<longrightarrow>
          length m = length (dict_reader f) \<and>
          map fst m = lib_ids (dict_reader f) \<and>
          m = hits env 0 (dict_reader f)))"
proof -
  let ?libs = "dict_reader f"
  let ?m = "collected env ?libs"
  have answered: "\<forall>(j, lib) \<in> set (enumerate 0 ?libs). \<exists>r. lookup env j lib = Inr r"
    using assms(3) by fastforce
  have run: "outcome (main env) = None" "persisted (main env) = Dumped ?m"
    using main_complete [OF assms(1,2) answered] by simp_all
  have keys: "map fst (hits env 0 ?libs) = lib_ids ?libs"
    using assms(3) by (rule keys_hits_all)
  have k: "fst ` set ?m = set (lib_ids ?libs)"
    using keys keys_collected [of env ?libs] by (metis list.set_map)
  have "length ?m = card (fst ` set ?m)"
    using distinct_collected [of env ?libs] by (metis distinct_card length_map list.set_map)
  then have c: "length ?m = card (set (lib_ids ?libs))" using k by simp
  have d: "distinct (lib_ids ?libs) \<longrightarrow>
      length ?m = length ?libs \<and> map fst ?m = lib_ids ?libs \<and> ?m = hits env 0 ?libs"
  proof
    assume dist: "distinct (lib_ids ?libs)"
    have "?m = hits env 0 ?libs" using dist by (rule collected_distinct)
    moreover have "length (lib_ids ?libs) = length ?libs" by (simp add: lib_ids_def)
    ultimately show "length ?m = length ?libs \<and> map fst ?m = lib_ids ?libs \<and> ?m = hits env 0 ?libs"
      using keys by (metis length_map)
  qed
  show ?thesis using run k c d by blast
qed

theorem main_all_found_witness:
  "outcome (main (env_of two_libraries)) = None \<and>
   persisted (main (env_of two_libraries)) =
     Dumped [(Some ''LIB01'', harvard_yard), (Some ''LIB02'', widener)]"
proof -
  let ?env = "env_of two_libraries"
  have cols: "required_columns two_libraries"
    by (simp add: required_columns_def two_libraries_def)
  have found: "\<forall>(j, lib) \<in> set (enumerate 0 (dict_reader two_libraries)).
      \<exists>c. lookup ?env j lib = Inr (Some c)"
    by (simp add: rows_two_libraries service_answers cell_def)
  have ids: "distinct (lib_ids (dict_reader two_libraries))"
    by (simp add: rows_two_libraries lib_ids_def cell_def)
  have h: "hits ?env 0 (dict_reader two_libraries) =
      [(Some ''LIB01'', harvard_yard), (Some ''LIB02'', widener)]"
    by (simp add: rows_two_libraries service_answers cell_def)
  show ?thesis
    using main_all_found [OF open_env_of cols found] ids h by auto
qed

text \<open>
  The claim as written fails when an id occurs twice: two rows, both found, one entry.
\<close>

theorem all_found_same_id_counterexample:
  "required_columns same_id_twice \<and>
   length (dict_reader same_id_twice) = 2 \<and>
   lookup (env_of same_id_twice) 0 (dict_reader same_id_twice ! 0) = Inr (Some harvard_yard) \<and>
   lookup (env_of same_id_twice) 1 (dict_reader same_id_twice ! 1) = Inr (Some widener) \<and>
   outcome (main (env_of same_id_twice)) = None \<and>
   persisted (main (env_of same_id_twice)) = Dumped [(Some ''LIB01'', widener)]"
proof -
  have "required_columns same_id_twice"
    by (simp add: required_columns_def same_id_twice_def)
  then show ?thesis
    by (simp add: main_same_id_twice rows_same_id_twice service_answers cell_def)
qed

lemma failed_is_misses:
  assumes "\<forall>(j, lib) \<in> set (enumerate 0 libs). \<exists>r. lookup env j lib = Inr r"
    and "distinct (lib_ids libs)"
  shows "int (length libs) - int (length (collected env libs)) = int (misses env 0 libs)"
    and "length (collected env libs) = length libs - misses env 0 libs"
  using length_hits [OF assms(1)] collected_distinct [OF assms(2), of env] by simp_all

text \<open>
  C2, as amended. Let the input be readable with both columns, let the ids of its \<open>N\<close>
  rows be pairwise different, and let every lookup return, \<open>None\<close> for the rows of \<open>S\<close>
  and a coordinate for the others. Then the run returns normally, the map written has
  \<open>N - |S|\<close> entries, and the warning line is printed exactly when \<open>S\<close> is not empty,
  once, with the count \<open>|S|\<close>.
\<close>

theorem main_some_not_found:
  assumes "open_csv env INPUT_CSV = Inr f" and "required_columns f"
    and "\<forall>(j, lib) \<in> set (enumerate 0 (dict_reader f)). \<exists>r. lookup env j lib = Inr r"
    and "distinct (lib_ids (dict_reader f))"
  shows "outcome (main env) = None \<and>
    (\<exists>m. persisted (main env) = Dumped m \<and>
       length m = length (dict_reader f) - misses env 0 (dict_reader f)) \<and>
    filter is_warning (events (main env)) =
      (if misses env 0 (dict_reader f) = 0 then []
       else [Print_warning (int (misses env 0 (dict_reader f)))])"
  using main_complete [OF assms(1,2,3)] failed_is_misses [OF assms(3,4)] by simp

theorem main_some_not_found_witness:
  "outcome (main (env_of one_unknown)) = None \<and>
   (\<exists>m. persisted (main (env_of one_unknown)) = Dumped m \<and> length m = 3 - 1) \<and>
   filter is_warning (events (main (env_of one_unknown))) = [Print_warning 1]"
proof -
  let ?env = "env_of one_unknown"
  have cols: "required_columns one_unknown"
    by (simp add: required_columns_def one_unknown_def)
  have answered: "\<forall>(j, lib) \<in> set (enumerate 0 (dict_reader one_unknown)).
      \<exists>r. lookup ?env j lib = Inr r"
    by (simp add: rows_one_unknown service_answers cell_def)
  have ids: "distinct (lib_ids (dict_reader one_unknown))"
    by (simp add: rows_one_unknown lib_ids_def cell_def)
  have n: "length (dict_reader one_unknown) = 3"
    by (simp add: rows_one_unknown)
  have s: "misses ?env 0 (dict_reader one_unknown) = 1"
    by (simp add: misses_def rows_one_unknown service_answers cell_def)
  show ?thesis
    using main_some_not_found [OF open_env_of cols answered ids] n s by simp
qed

text \<open>
  The claim as written fails when an id occurs twice: no lookup returns \<open>None\<close>, yet
  the map has one entry for two rows and the warning reports one failure.
\<close>

theorem not_found_same_id_counterexample:
  "misses (env_of same_id_twice) 0 (dict_reader same_id_twice) = 0 \<and>
   length (dict_reader same_id_twice) = 2 \<and>
   persisted (main (env_of same_id_twice)) = Dumped [(Some ''LIB01'', widener)] \<and>
   filter is_warning (events (main (env_of same_id_twice))) = [Print_warning 1]"
  by (simp add: main_same_id_twice misses_def rows_same_id_twice service_answers cell_def)

section \<open>The pause between lookups\<close>

lemma paced_Cons: "as \<noteq> [] \<Longrightarrow> paced (a # as) = Geocode a # Sleep 1 # paced as"
  by (cases as) simp_all

lemma sleeps_paced: "length (filter is_sleep (paced as)) = length as - 1"
  by (induction as rule: paced.induct) simp_all

lemma sleeps_of_gate: "filter is_sleep (filter is_gate tr) = filter is_sleep tr"
proof (induction tr)
  case Nil
  then show ?case by simp
next
  case (Cons e tr)
  then show ?case by (cases e) simp_all
qed

lemma loop_paced:
  assumes "\<forall>lib \<in> set libs. has_columns lib" and "n = i + length libs"
  shows "\<exists>m. m \<le> length libs \<and> (libs \<noteq> [] \<longrightarrow> 0 < m) \<and>
    filter is_gate (trace (fst (loop env n i libs st))) =
      filter is_gate (trace st) @ paced (take m (addresses libs)) \<and>
    (snd (loop env n i libs st) = None \<longrightarrow> m = length libs)"
  using assms
proof (induction libs arbitrary: i st)
  case Nil
  then show ?case by simp
next
  case (Cons lib libs)
  have cols: "has_columns lib" using Cons.prems by simp
  let ?a = "cell lib ''Address''"
  show ?case
  proof (cases "lookup env i lib")
    case (Inl e)
    obtain st' where "loop_body env n i lib st = (st', Some e)"
      and "trace st' = trace st @ [Print_progress (i + 1) n (cell lib ''Id''), Geocode ?a]"
      using loop_body_raise [OF cols Inl] by blast
    then have "filter is_gate (trace (fst (loop env n i (lib # libs) st))) =
        filter is_gate (trace st) @ paced (take 1 (addresses (lib # libs))) \<and>
      snd (loop env n i (lib # libs) st) = Some e"
      by (simp add: addresses_def)
    then show ?thesis by (intro exI [of _ 1]) (simp del: loop.simps)
  next
    case (Inr r)
    have last_iff: "Suc i < n \<longleftrightarrow> libs \<noteq> []" using Cons.prems by auto
    obtain st1 where b: "loop_body env n i lib st = (st1, None)"
      and g: "filter is_gate (trace st1) =
        filter is_gate (trace st) @ Geocode ?a # (if libs \<noteq> [] then [Sleep 1] else [])"
      using Inr last_iff by (cases r) (simp_all add: loop_body_columns [OF cols] Let_def)
    obtain m where m: "m \<le> length libs" "libs \<noteq> [] \<longrightarrow> 0 < m"
      and gm: "filter is_gate (trace (fst (loop env n (Suc i) libs st1))) =
        filter is_gate (trace st1) @ paced (take m (addresses libs))"
      and cm: "snd (loop env n (Suc i) libs st1) = None \<longrightarrow> m = length libs"
      using Cons.IH [of "Suc i" st1] Cons.prems by auto
    have "Geocode ?a # (if libs \<noteq> [] then [Sleep 1] else []) @ paced (take m (addresses libs)) =
        paced (?a # take m (addresses libs))"
    proof (cases "libs = []")
      case True
      then show ?thesis by (simp add: addresses_def)
    next
      case False
      then have "take m (addresses libs) \<noteq> []" using m by (simp add: addresses_def)
      then show ?thesis using False by (simp add: paced_Cons)
    qed
    then have "filter is_gate (trace (fst (loop env n i (lib # libs) st))) =
        filter is_gate (trace st) @ paced (take (Suc m) (addresses (lib # libs)))"
      using b g gm by (simp add: addresses_def)
    moreover have "snd (loop env n i (lib # libs) st) = None \<longrightarrow> Suc m = length (lib # libs)"
      using b cm by simp
    ultimately show ?thesis using m by (intro exI [of _ "Suc m"]) (simp del: loop.simps)
  qed
qed

lemma main_events:
  assumes "open_csv env INPUT_CSV = Inr f"
  shows "\<exists>st oc. loop env (length (dict_reader f)) 0 (dict_reader f)
        \<lparr>coords = [], trace = [Print_geocoding (length (dict_reader f))]\<rparr> = (st, oc) \<and>
    outcome (main env) = oc \<and>
    filter is_gate (events (main env)) = filter is_gate (trace st) \<and>
    filter is_sleep (events (main env)) = filter is_sleep (trace st)"
proof -
  let ?libs = "dict_reader f"
  let ?st0 = "\<lparr>coords = [], trace = [Print_geocoding (length ?libs)]\<rparr>"
  obtain st oc where l: "loop env (length ?libs) 0 ?libs ?st0 = (st, oc)"
    by (cases "loop env (length ?libs) 0 ?libs ?st0")
  show ?thesis using assms l by (cases oc) (simp_all add: main_def Let_def)
qed

text \<open>
  C5. Whenever the input is read, the lookups and pauses of the run form the sequence
  lookup, pause, lookup, ..., lookup over the first \<open>m\<close> rows, for some \<open>m\<close>: every pause
  stands between two consecutive lookups, none before the first lookup and none after
  the last. When the run returns normally, \<open>m\<close> is the number \<open>N\<close> of rows: every row
  is looked up once, in input order, and for \<open>N \<ge> 1\<close> there are exactly \<open>N - 1\<close> pauses.
\<close>

theorem main_pauses_between_lookups:
  assumes "open_csv env INPUT_CSV = Inr f"
  shows "\<exists>m\<le>length (dict_reader f).
    filter is_gate (events (main env)) = paced (take m (addresses (dict_reader f))) \<and>
    (outcome (main env) = None \<longrightarrow>
       m = length (dict_reader f) \<and>
       length (filter is_sleep (events (main env))) = length (dict_reader f) - 1)"
proof -
  let ?libs = "dict_reader f"
  let ?st0 = "\<lparr>coords = [], trace = [Print_geocoding (length ?libs)]\<rparr>"
  obtain st oc where l: "loop env (length ?libs) 0 ?libs ?st0 = (st, oc)"
    and o: "outcome (main env) = oc"
    and g: "filter is_gate (events (main env)) = filter is_gate (trace st)"
    and s: "filter is_sleep (events (main env)) = filter is_sleep (trace st)"
    using main_events [OF assms] by (elim exE conjE) (rule that)
  have st: "fst (loop env (length ?libs) 0 ?libs ?st0) = st"
    and oc: "snd (loop env (length ?libs) 0 ?libs ?st0) = oc"
    using l by simp_all
  show ?thesis
  proof (cases "required_columns f")
    case True
    then have cols: "\<forall>lib \<in> set ?libs. has_columns lib"
      using has_columns_dict_reader [of _ f] by auto
    have n0: "length ?libs = 0 + length ?libs" by simp
    obtain m where m: "m \<le> length ?libs"
      and pos: "?libs \<noteq> [] \<longrightarrow> 0 < m"
      and gm: "filter is_gate (trace (fst (loop env (length ?libs) 0 ?libs ?st0))) =
        filter is_gate (trace ?st0) @ paced (take m (addresses ?libs))"
      and cm: "snd (loop env (length ?libs) 0 ?libs ?st0) = None \<longrightarrow> m = length ?libs"
      using loop_paced [OF cols n0, of env ?st0] by (elim exE conjE) (rule that)
    have gate: "filter is_gate (events (main env)) = paced (take m (addresses ?libs))"
      using g gm by (simp only: st) simp
    have "filter is_sleep (events (main env)) = filter is_sleep (paced (take m (addresses ?libs)))"
      using gate sleeps_of_gate [of "events (main env)"] by (simp only:)
    then have sl: "length (filter is_sleep (events (main env))) = length (take m (addresses ?libs)) - 1"
      by (simp only: sleeps_paced)
    have imp: "outcome (main env) = None \<longrightarrow>
        m = length ?libs \<and> length (filter is_sleep (events (main env))) = length ?libs - 1"
    proof
      assume "outcome (main env) = None"
      then have "m = length ?libs" using cm o oc by (simp only:)
      then show "m = length ?libs \<and> length (filter is_sleep (events (main env))) = length ?libs - 1"
        using sl by (simp add: addresses_def)
    qed
    from m gate imp show ?thesis by (intro exI [of _ m] conjI)
  next
    case False
    show ?thesis
    proof (cases "?libs = []")
      case True
      have "main env = \<lparr>events = [Print_geocoding 0, Dump [], Print_wrote 0],
                      persisted = Dumped [], outcome = None\<rparr>"
        using assms True by (simp add: main_def)
      then show ?thesis using True by (intro exI [of _ 0]) simp
    next
      case nonempty: False
      have "main env = \<lparr>events = [Print_geocoding (length ?libs)],
          persisted = Untouched, outcome = Some KeyError\<rparr>"
        using assms False nonempty by (rule main_missing_column)
      then show ?thesis by (intro exI [of _ 0]) simp
    qed
  qed
qed

lemma main_one_unknown_returns: "outcome (main (env_of one_unknown)) = None"
proof -
  have "required_columns one_unknown"
    by (simp add: required_columns_def one_unknown_def)
  moreover have "\<forall>(j, lib) \<in> set (enumerate 0 (dict_reader one_unknown)).
      \<exists>r. lookup (env_of one_unknown) j lib = Inr r"
    by (simp add: rows_one_unknown service_answers cell_def)
  ultimately show ?thesis using main_complete [OF open_env_of] by blast
qed

theorem main_pauses_between_lookups_witness:
  "filter is_gate (events (main (env_of one_unknown))) =
     [Geocode (Some ''1 Harvard Yard, Cambridge, MA''), Sleep 1,
      Geocode (Some ''no such place''), Sleep 1,
      Geocode (Some ''Widener Library, Cambridge, MA'')] \<and>
   length (filter is_sleep (events (main (env_of one_unknown)))) = 3 - 1"
proof -
  let ?env = "env_of one_unknown"
  obtain m where "m \<le> length (dict_reader one_unknown)" and "filter is_gate (events (main ?env)) =
      paced (take m (addresses (dict_reader one_unknown)))"
    and "outcome (main ?env) = None \<longrightarrow>
       m = length (dict_reader one_unknown) \<and>
       length (filter is_sleep (events (main ?env))) = length (dict_reader one_unknown) - 1"
    using main_pauses_between_lookups [OF open_env_of, of one_unknown]
    by (elim exE conjE) (rule that)
  then show ?thesis
    using main_one_unknown_returns by (simp add: rows_one_unknown addresses_def cell_def)
qed

section \<open>Growth of the result map\<close>

lemma keys_set_dict_set: "fst ` set (dict_set k v d) = insert k (fst ` set d)"
  by (induction d) auto

lemma loop_body_keys:
  "prefix (map fst (coords st)) (map fst (coords (fst (loop_body env n i lib st))))"
  by (simp add: loop_body_coords keys_dict_set split: sum.splits option.splits)

lemma loop_body_keys_input:
  "subseq (map fst (coords (fst (loop_body env n i lib st))) @ ids)
     (map fst (coords st) @ cell lib ''Id'' # ids)"
proof -
  have a: "subseq (map fst (coords st) @ ids) (map fst (coords st) @ cell lib ''Id'' # ids)"
    by (auto simp: subseq_append')
  have b: "subseq (map fst (coords st) @ [cell lib ''Id''] @ ids)
      (map fst (coords st) @ cell lib ''Id'' # ids)"
    by simp
  show ?thesis using a b
    by (simp add: loop_body_coords keys_dict_set split: sum.splits option.splits)
qed

lemma loop_body_entries:
  "cell lib ''Id'' \<notin> fst ` set (coords st) \<Longrightarrow>
   prefix (coords st) (coords (fst (loop_body env n i lib st)))"
  by (simp add: loop_body_coords dict_set_fresh split: sum.splits option.splits)

lemma loop_body_new_keys:
  "fst ` set (coords (fst (loop_body env n i lib st))) \<subseteq> insert (cell lib ''Id'') (fst ` set (coords st))"
  by (auto simp: loop_body_coords keys_set_dict_set split: sum.splits option.splits)

lemma disjoint_from_grown:
  "K1 \<subseteq> insert x K0 \<Longrightarrow> I \<inter> K0 = {} \<Longrightarrow> x \<notin> I \<Longrightarrow> I \<inter> K1 = {}"
  by auto

lemma loop_keys: "prefix (map fst (coords st)) (map fst (coords (fst (loop env n i libs st))))"
proof (induction libs arbitrary: i st)
  case Nil
  then show ?case by simp
next
  case (Cons lib libs)
  obtain st1 oc where b: "loop_body env n i lib st = (st1, oc)"
    by (cases "loop_body env n i lib st")
  have p: "prefix (map fst (coords st)) (map fst (coords st1))"
    using loop_body_keys [of st env n i lib] b by simp
  show ?case
  proof (cases oc)
    case None
    have "prefix (map fst (coords st1)) (map fst (coords (fst (loop env n (Suc i) libs st1))))"
      by (rule Cons.IH)
    then show ?thesis using p b None by (simp add: prefix_order.trans)
  next
    case (Some e)
    then show ?thesis using p b by simp
  qed
qed

lemma loop_keys_input:
  "subseq (map fst (coords (fst (loop env n i libs st)))) (map fst (coords st) @ lib_ids libs)"
proof (induction libs arbitrary: i st)
  case Nil
  then show ?case by (simp add: lib_ids_def)
next
  case (Cons lib libs)
  obtain st1 oc where b: "loop_body env n i lib st = (st1, oc)"
    by (cases "loop_body env n i lib st")
  have s: "subseq (map fst (coords st1) @ lib_ids libs)
      (map fst (coords st) @ cell lib ''Id'' # lib_ids libs)"
    using loop_body_keys_input [of env n i lib st "lib_ids libs"] b by simp
  show ?case
  proof (cases oc)
    case None
    have "subseq (map fst (coords (fst (loop env n (Suc i) libs st1))))
        (map fst (coords st1) @ lib_ids libs)"
      by (rule Cons.IH)
    then have "subseq (map fst (coords (fst (loop env n (Suc i) libs st1))))
        (map fst (coords st) @ cell lib ''Id'' # lib_ids libs)"
      using s by (rule subseq_order.trans)
    then show ?thesis using b None by (simp add: lib_ids_def)
  next
    case (Some e)
    have "subseq (map fst (coords st1)) (map fst (coords st1) @ lib_ids libs)"
      by (rule subseq_rev_drop_many) simp
    then have "subseq (map fst (coords st1)) (map fst (coords st) @ cell lib ''Id'' # lib_ids libs)"
      using s by (rule subseq_order.trans)
    then show ?thesis using b Some by (simp add: lib_ids_def)
  qed
qed

lemma loop_entries:
  "distinct (lib_ids libs) \<Longrightarrow> set (lib_ids libs) \<inter> fst ` set (coords st) = {} \<Longrightarrow>
   prefix (coords st) (coords (fst (loop env n i libs st)))"
proof (induction libs arbitrary: i st)
  case Nil
  then show ?case by simp
next
  case (Cons lib libs)
  obtain st1 oc where b: "loop_body env n i lib st = (st1, oc)"
    by (cases "loop_body env n i lib st")
  have fresh: "cell lib ''Id'' \<notin> fst ` set (coords st)"
    using Cons.prems(2) by (auto simp: lib_ids_def)
  have p: "prefix (coords st) (coords st1)"
    using loop_body_entries [OF fresh, of env n i] b by simp
  show ?case
  proof (cases oc)
    case None
    have k: "fst ` set (coords st1) \<subseteq> insert (cell lib ''Id'') (fst ` set (coords st))"
      using loop_body_new_keys [of env n i lib st] b by simp
    have d: "distinct (lib_ids libs)" and nin: "cell lib ''Id'' \<notin> set (lib_ids libs)"
      using Cons.prems(1) by (simp_all add: lib_ids_def)
    have "set (lib_ids libs) \<inter> fst ` set (coords st) = {}"
      using Cons.prems(2) by (auto simp: lib_ids_def)
    with k have "set (lib_ids libs) \<inter> fst ` set (coords st1) = {}"
      using nin by (rule disjoint_from_grown)
    then have "prefix (coords st1) (coords (fst (loop env n (Suc i) libs st1)))"
      using d by (intro Cons.IH)
    then show ?thesis using p b None by (simp add: prefix_order.trans)
  next
    case (Some e)
    then show ?thesis using p b by simp
  qed
qed

lemma map_add_hit:
  "map_of (dict_set k c d) ++ map_of (rev hs) = map_of d ++ map_of (rev ((k, c) # hs))"
  by (rule ext) (simp add: map_of_dict_set map_add_def split: option.splits)

lemma loop_values:
  "\<exists>m\<le>length libs.
     map_of (coords (fst (loop env n i libs st))) =
       map_of (coords st) ++ map_of (rev (hits env i (take m libs))) \<and>
     (snd (loop env n i libs st) = None \<longrightarrow> m = length libs)"
proof (induction libs arbitrary: i st)
  case Nil
  then show ?case by simp
next
  case (Cons lib libs)
  let ?goal = "\<lambda>m. m \<le> length (lib # libs) \<and>
     map_of (coords (fst (loop env n i (lib # libs) st))) =
       map_of (coords st) ++ map_of (rev (hits env i (take m (lib # libs)))) \<and>
     (snd (loop env n i (lib # libs) st) = None \<longrightarrow> m = length (lib # libs))"
  have stop: "?goal 0" if "loop_body env n i lib st = (st1, Some e)" "coords st1 = coords st"
    for st1 e
    using that by simp
  show ?case
  proof (cases "has_columns lib")
    case False
    then have "loop_body env n i lib st = (st, Some KeyError)"
      by (rule loop_body_no_columns)
    then have "?goal 0" by (rule stop) simp
    then show ?thesis by (rule exI [of _ 0])
  next
    case True
    show ?thesis
    proof (cases "lookup env i lib")
      case (Inl e)
      obtain st1 where "loop_body env n i lib st = (st1, Some e)" and "coords st1 = coords st"
        using loop_body_raise [OF True Inl, where n = n and st = st]
        by (elim exE conjE) (rule that)
      then have "?goal 0" by (rule stop)
      then show ?thesis by (rule exI [of _ 0])
    next
      case (Inr r)
      obtain st1 where b: "loop_body env n i lib st = (st1, None)"
        and c1: "coords st1 =
          (case r of Some c \<Rightarrow> dict_set (cell lib ''Id'') c (coords st) | None \<Rightarrow> coords st)"
        using Inr by (cases r) (simp_all add: loop_body_columns [OF True] Let_def)
      obtain m where m: "m \<le> length libs"
        and v: "map_of (coords (fst (loop env n (Suc i) libs st1))) =
          map_of (coords st1) ++ map_of (rev (hits env (Suc i) (take m libs)))"
        and e: "snd (loop env n (Suc i) libs st1) = None \<longrightarrow> m = length libs"
        using Cons.IH [of "Suc i" st1] by (elim exE conjE) (rule that)
      have "map_of (coords st1) ++ map_of (rev (hits env (Suc i) (take m libs))) =
          map_of (coords st) ++ map_of (rev (hits env i (lib # take m libs)))"
        using c1 Inr by (cases r) (simp_all add: map_add_hit)
      then have "?goal (Suc m)"
        using b m v e by simp
      then show ?thesis by (rule exI [of _ "Suc m"])
    qed
  qed
qed

text \<open>
  C6, as amended. From any state of the loop onwards, whatever the rows, the answers
  and the errors: the keys of the map before are a prefix of the keys after, so no key
  is ever removed or moved and new keys go to the end; and the keys follow the order of
  the input ids. When the ids of the remaining rows are pairwise different and not yet
  in the map, the map before is a prefix of the map after: entries are only added and
  none is changed. In general the value stored under an id after the loop is the
  coordinate of the last processed row with that id whose lookup returned one, and the
  value stored before when there is no such row: a later successful lookup for an id
  replaces the coordinate stored under it (last write wins), and nothing else changes a
  stored value. The processed rows are all the rows when the loop ends normally.
\<close>

theorem resultmap_grows:
  "prefix (map fst (coords st)) (map fst (coords (fst (loop env n i libs st)))) \<and>
   subseq (map fst (coords (fst (loop env n i libs st)))) (map fst (coords st) @ lib_ids libs) \<and>
   (distinct (lib_ids libs) \<and> set (lib_ids libs) \<inter> fst ` set (coords st) = {} \<longrightarrow>
      prefix (coords st) (coords (fst (loop env n i libs st)))) \<and>
   (\<exists>m\<le>length libs.
      map_of (coords (fst (loop env n i libs st))) =
        map_of (coords st) ++ map_of (rev (hits env i (take m libs))) \<and>
      (snd (loop env n i libs st) = None \<longrightarrow> m = length libs))"
proof (intro conjI impI)
  show "prefix (map fst (coords st)) (map fst (coords (fst (loop env n i libs st))))"
    by (rule loop_keys)
  show "subseq (map fst (coords (fst (loop env n i libs st)))) (map fst (coords st) @ lib_ids libs)"
    by (rule loop_keys_input)
  show "\<exists>m\<le>length libs.
      map_of (coords (fst (loop env n i libs st))) =
        map_of (coords st) ++ map_of (rev (hits env i (take m libs))) \<and>
      (snd (loop env n i libs st) = None \<longrightarrow> m = length libs)"
    by (rule loop_values)
  assume "distinct (lib_ids libs) \<and> set (lib_ids libs) \<inter> fst ` set (coords st) = {}"
  then show "prefix (coords st) (coords (fst (loop env n i libs st)))"
    by (intro loop_entries) simp_all
qed

theorem resultmap_grows_witness:
  "prefix (map fst (coords \<lparr>coords = [(Some ''LIB01'', harvard_yard)], trace = []\<rparr>))
     (map fst (coords (fst (loop (env_of one_unknown) 3 1 (drop 1 (dict_reader one_unknown))
        \<lparr>coords = [(Some ''LIB01'', harvard_yard)], trace = []\<rparr>)))) \<and>
   subseq
     (map fst (coords (fst (loop (env_of one_unknown) 3 1 (drop 1 (dict_reader one_unknown))
        \<lparr>coords = [(Some ''LIB01'', harvard_yard)], trace = []\<rparr>))))
     (map fst (coords \<lparr>coords = [(Some ''LIB01'', harvard_yard)], trace = []\<rparr>)
        @ lib_ids (drop 1 (dict_reader one_unknown))) \<and>
   prefix (coords \<lparr>coords = [(Some ''LIB01'', harvard_yard)], trace = []\<rparr>)
     (coords (fst (loop (env_of one_unknown) 3 1 (drop 1 (dict_reader one_unknown))
        \<lparr>coords = [(Some ''LIB01'', harvard_yard)], trace = []\<rparr>))) \<and>
   coords (fst (loop (env_of one_unknown) 3 1 (drop 1 (dict_reader one_unknown))
        \<lparr>coords = [(Some ''LIB01'', harvard_yard)], trace = []\<rparr>)) =
     [(Some ''LIB01'', harvard_yard), (Some ''LIB03'', widener)] \<and>
   snd (loop (env_of same_id_twice) 2 0 (dict_reader same_id_twice)
        \<lparr>coords = [], trace = []\<rparr>) = None \<and>
   map_of (coords (fst (loop (env_of same_id_twice) 2 0 (dict_reader same_id_twice)
        \<lparr>coords = [], trace = []\<rparr>))) (Some ''LIB01'') = Some widener"
proof -
  let ?st = "\<lparr>coords = [(Some ''LIB01'', harvard_yard)], trace = []\<rparr>"
  let ?libs = "drop 1 (dict_reader one_unknown)"
  let ?env = "env_of one_unknown"
  have d: "distinct (lib_ids ?libs) \<and> set (lib_ids ?libs) \<inter> fst ` set (coords ?st) = {}"
    by (simp add: rows_one_unknown lib_ids_def cell_def)
  have c: "coords (fst (loop ?env 3 1 ?libs ?st)) =
      [(Some ''LIB01'', harvard_yard), (Some ''LIB03'', widener)]"
    by (simp add: rows_one_unknown loop_body_def dict_get_def emit_def
        service_yard service_widener service_unknown env_of_def)
  note g = resultmap_grows [of ?st ?env 3 1 ?libs]
  have p1: "prefix (map fst (coords ?st)) (map fst (coords (fst (loop ?env 3 1 ?libs ?st))))"
    using g by (rule conjunct1)
  have p2: "subseq (map fst (coords (fst (loop ?env 3 1 ?libs ?st))))
      (map fst (coords ?st) @ lib_ids ?libs)"
    using g by (elim conjE)
  have "distinct (lib_ids ?libs) \<and> set (lib_ids ?libs) \<inter> fst ` set (coords ?st) = {} \<longrightarrow>
      prefix (coords ?st) (coords (fst (loop ?env 3 1 ?libs ?st)))"
    using g by (elim conjE)
  then have p3: "prefix (coords ?st) (coords (fst (loop ?env 3 1 ?libs ?st)))"
    using d by (rule mp)
  let ?st0 = "\<lparr>coords = [], trace = []\<rparr>"
  let ?twice = "dict_reader same_id_twice"
  let ?env2 = "env_of same_id_twice"
  have ret: "snd (loop ?env2 2 0 ?twice ?st0) = None"
    by (simp add: rows_same_id_twice loop_body_def dict_get_def emit_def
        service_yard service_widener env_of_def)
  have "\<exists>m\<le>length ?twice.
      map_of (coords (fst (loop ?env2 2 0 ?twice ?st0))) =
        map_of (coords ?st0) ++ map_of (rev (hits ?env2 0 (take m ?twice))) \<and>
      (snd (loop ?env2 2 0 ?twice ?st0) = None \<longrightarrow> m = length ?twice)"
    using resultmap_grows [of ?st0 ?env2 2 0 ?twice] by (elim conjE)
  then obtain m where v: "map_of (coords (fst (loop ?env2 2 0 ?twice ?st0))) =
        map_of (coords ?st0) ++ map_of (rev (hits ?env2 0 (take m ?twice)))"
    and e: "snd (loop ?env2 2 0 ?twice ?st0) = None \<longrightarrow> m = length ?twice"
    by (elim exE conjE) (rule that)
  have m: "m = length ?twice" using e ret by (rule mp)
  have h: "hits ?env2 0 (take (length ?twice) ?twice) =
      [(Some ''LIB01'', harvard_yard), (Some ''LIB01'', widener)]"
    by (simp add: rows_same_id_twice service_answers cell_def)
  have p4: "map_of (coords (fst (loop ?env2 2 0 ?twice ?st0))) (Some ''LIB01'') = Some widener"
    by (simp only: v m h) simp
  show ?thesis using p1 p2 p3 c ret p4 by (intro conjI)
qed

text \<open>
  The claim as written fails when an id occurs twice: after the first row the map holds
  the first coordinate under the id, after the second row the same key holds the second
  coordinate. The entry was updated.
\<close>

theorem entry_replaced_counterexample:
  "coords (fst (loop (env_of same_id_twice) 2 0 (take 1 (dict_reader same_id_twice))
      \<lparr>coords = [], trace = []\<rparr>)) = [(Some ''LIB01'', harvard_yard)] \<and>
   coords (fst (loop (env_of same_id_twice) 2 0 (dict_reader same_id_twice)
      \<lparr>coords = [], trace = []\<rparr>)) = [(Some ''LIB01'', widener)] \<and>
   harvard_yard \<noteq> widener"
  by (simp add: rows_same_id_twice loop_body_def dict_get_def emit_def
      service_yard service_widener env_of_def harvard_yard_def widener_def)

section \<open>Misses and repeated ids\<close>

lemma hits_append:
  "hits env i (xs @ ys) = hits env i xs @ hits env (i + length xs) ys"
  by (induction xs arbitrary: i) simp_all

lemma hits_no_key:
  "\<forall>(j, r) \<in> set (enumerate i libs). cell r ''Id'' = k \<longrightarrow> lookup env j r = Inr None \<Longrightarrow>
   k \<notin> fst ` set (hits env i libs)"
proof (induction libs arbitrary: i)
  case Nil
  then show ?case by simp
next
  case (Cons lib libs)
  have "k \<notin> fst ` set (hits env (Suc i) libs)"
    using Cons.prems by (intro Cons.IH) auto
  moreover have "cell lib ''Id'' = k \<longrightarrow> lookup env i lib = Inr None"
    using Cons.prems by simp
  ultimately show ?case by (auto split: sum.splits option.splits)
qed

lemma map_of_skip: "k \<notin> fst ` set xs \<Longrightarrow> map_of (xs @ (k, c) # ys) k = Some c"
  by (induction xs) auto

lemma loop_body_miss_coords:
  "lookup env i l = Inr None \<Longrightarrow> coords (fst (loop_body env n i l st)) = coords st"
  by (simp add: loop_body_coords)

lemma last_hit_persisted:
  assumes "open_csv env INPUT_CSV = Inr f" and "required_columns f"
    and "dict_reader f = pre @ lib # post"
    and "\<forall>(j, r) \<in> set (enumerate 0 (dict_reader f)). \<exists>a. lookup env j r = Inr a"
    and "lookup env (length pre) lib = Inr (Some c)"
    and "\<forall>(j, r) \<in> set (enumerate (Suc (length pre)) post).
           cell r ''Id'' = cell lib ''Id'' \<longrightarrow> lookup env j r = Inr None"
  shows "outcome (main env) = None \<and>
    (\<exists>m. persisted (main env) = Dumped m \<and> map_of m (cell lib ''Id'') = Some c)"
proof -
  let ?k = "cell lib ''Id''"
  let ?after = "hits env (Suc (length pre)) post"
  have run: "outcome (main env) = None"
    "persisted (main env) = Dumped (collected env (dict_reader f))"
    using main_complete [OF assms(1,2,4)] by simp_all
  have h: "hits env 0 (dict_reader f) = hits env 0 pre @ (?k, c) # ?after"
    using assms(3,5) by (simp add: hits_append)
  have "?k \<notin> fst ` set ?after"
    using assms(6) by (rule hits_no_key)
  then have "?k \<notin> fst ` set (rev ?after)" by simp
  then have "map_of (rev ?after @ (?k, c) # rev (hits env 0 pre)) ?k = Some c"
    by (rule map_of_skip)
  then have "map_of (rev (hits env 0 (dict_reader f))) ?k = Some c"
    using h by simp
  then have "map_of (collected env (dict_reader f)) ?k = Some c"
    by (simp add: collected_def map_of_fold_dict_set)
  then show ?thesis using run by simp
qed

text \<open>
  C10. A lookup that returns \<open>None\<close> leaves the map exactly as it was. And in a run that
  returns, if a row's lookup returned a coordinate and no later row with the same id had
  a coordinate returned (their lookups returned \<open>None\<close>), then the map written holds
  that coordinate under the id: later misses for the id, and rows with other ids, do not
  remove or change it; only a later row with the same id whose lookup returns a
  coordinate takes its place.
\<close>

theorem miss_keeps_coordinate:
  "(lookup env i l = Inr None \<longrightarrow> coords (fst (loop_body env n i l st)) = coords st) \<and>
   (open_csv env INPUT_CSV = Inr f \<and> required_columns f \<and>
    dict_reader f = pre @ lib # post \<and>
    (\<forall>(j, r) \<in> set (enumerate 0 (dict_reader f)). \<exists>a. lookup env j r = Inr a) \<and>
    lookup env (length pre) lib = Inr (Some c) \<and>
    (\<forall>(j, r) \<in> set (enumerate (Suc (length pre)) post).
        cell r ''Id'' = cell lib ''Id'' \<longrightarrow> lookup env j r = Inr None) \<longrightarrow>
    outcome (main env) = None \<and>
    (\<exists>m. persisted (main env) = Dumped m \<and> map_of m (cell lib ''Id'') = Some c))"
proof (intro conjI impI)
  assume "lookup env i l = Inr None"
  then show "coords (fst (loop_body env n i l st)) = coords st"
    by (rule loop_body_miss_coords)
next
  assume a: "open_csv env INPUT_CSV = Inr f \<and> required_columns f \<and>
    dict_reader f = pre @ lib # post \<and>
    (\<forall>(j, r) \<in> set (enumerate 0 (dict_reader f)). \<exists>a. lookup env j r = Inr a) \<and>
    lookup env (length pre) lib = Inr (Some c) \<and>
    (\<forall>(j, r) \<in> set (enumerate (Suc (length pre)) post).
        cell r ''Id'' = cell lib ''Id'' \<longrightarrow> lookup env j r = Inr None)"
  have r: "outcome (main env) = None \<and>
    (\<exists>m. persisted (main env) = Dumped m \<and> map_of m (cell lib ''Id'') = Some c)"
    using a by (elim conjE) (rule last_hit_persisted)
  show "outcome (main env) = None" using r by (rule conjunct1)
  show "\<exists>m. persisted (main env) = Dumped m \<and> map_of m (cell lib ''Id'') = Some c"
    using r by (rule conjunct2)
qed

theorem miss_keeps_coordinate_witness:
  "coords (fst (loop_body (env_of hit_then_miss) 2 1 (dict_reader hit_then_miss ! 1)
      \<lparr>coords = [(Some ''LIB01'', harvard_yard)], trace = []\<rparr>)) =
     [(Some ''LIB01'', harvard_yard)] \<and>
   outcome (main (env_of hit_then_miss)) = None \<and>
   (\<exists>m. persisted (main (env_of hit_then_miss)) = Dumped m \<and>
        map_of m (Some ''LIB01'') = Some harvard_yard)"
proof -
  let ?env = "env_of hit_then_miss"
  let ?r0 = "[(''Id'', Some ''LIB01''), (''Name'', Some ''Yard''),
              (''Address'', Some ''1 Harvard Yard, Cambridge, MA'')]"
  let ?r1 = "[(''Id'', Some ''LIB01''), (''Name'', Some ''Yard again''),
              (''Address'', Some ''no such place'')]"
  let ?st = "\<lparr>coords = [(Some ''LIB01'', harvard_yard)], trace = []\<rparr>"
  note t = miss_keeps_coordinate [of ?env 1 ?r1 2 ?st hit_then_miss "[]" ?r0 "[?r1]" harvard_yard]
  have miss: "lookup ?env 1 ?r1 = Inr None"
    by (simp add: service_answers cell_def)
  have cols: "required_columns hit_then_miss"
    by (simp add: required_columns_def hit_then_miss_def)
  have rows: "dict_reader hit_then_miss = [] @ ?r0 # [?r1]"
    by (simp add: rows_hit_then_miss)
  have answered: "\<forall>(j, r) \<in> set (enumerate 0 (dict_reader hit_then_miss)).
      \<exists>a. lookup ?env j r = Inr a"
    by (simp add: rows_hit_then_miss service_answers cell_def)
  have hit: "lookup ?env (length ([] :: row list)) ?r0 = Inr (Some harvard_yard)"
    by (simp add: service_answers cell_def)
  have later: "\<forall>(j, r) \<in> set (enumerate (Suc (length ([] :: row list))) [?r1]).
      cell r ''Id'' = cell ?r0 ''Id'' \<longrightarrow> lookup ?env j r = Inr None"
    by (simp add: service_answers cell_def)
  have step: "coords (fst (loop_body ?env 2 1 ?r1 ?st)) = coords ?st"
    using t [THEN conjunct1] miss by (rule mp)
  have all: "open_csv ?env INPUT_CSV = Inr hit_then_miss \<and> required_columns hit_then_miss \<and>
      dict_reader hit_then_miss = [] @ ?r0 # [?r1] \<and>
      (\<forall>(j, r) \<in> set (enumerate 0 (dict_reader hit_then_miss)). \<exists>a. lookup ?env j r = Inr a) \<and>
      lookup ?env (length ([] :: row list)) ?r0 = Inr (Some harvard_yard) \<and>
      (\<forall>(j, r) \<in> set (enumerate (Suc (length ([] :: row list))) [?r1]).
          cell r ''Id'' = cell ?r0 ''Id'' \<longrightarrow> lookup ?env j r = Inr None)"
    using open_env_of [of hit_then_miss] cols rows answered hit later by (intro conjI)
  have "outcome (main ?env) = None \<and>
      (\<exists>m. persisted (main ?env) = Dumped m \<and> map_of m (cell ?r0 ''Id'') = Some harvard_yard)"
    using t [THEN conjunct2] all by (rule mp)
  then show ?thesis using step by (simp add: rows_hit_then_miss cell_def)
qed

end
